theory Spec2Isabelle
  imports Main
begin

section \<open>Text primitives\<close>

text \<open>
  Python strings are modelled as \<^typ>\<open>string\<close>, one \<^typ>\<open>char\<close> per code point, so the
  model covers text over the code points 0 to 255. The character classes below are the
  ones Python 3 uses on that range: \<open>str.isspace\<close> and the regular expression class
  \<open>\s\<close> agree there, \<open>\w\<close> is \<open>str.isalnum\<close> plus the underscore, and
  \<open>str.isdigit\<close> accepts the superscript digits as well as the decimal ones.
\<close>

definition is_space :: "char \<Rightarrow> bool" where
  "is_space c = (c \<in> set [CHR 0x09, CHR 0x0A, CHR 0x0B, CHR 0x0C, CHR 0x0D,
                           CHR 0x1C, CHR 0x1D, CHR 0x1E, CHR 0x1F, CHR 0x20,
                           CHR 0x85, CHR 0xA0])"

definition is_linebreak :: "char \<Rightarrow> bool" where
  "is_linebreak c = (c \<in> set [CHR 0x0A, CHR 0x0B, CHR 0x0C, CHR 0x0D,
                               CHR 0x1C, CHR 0x1D, CHR 0x1E, CHR 0x85])"

definition is_decimal :: "char \<Rightarrow> bool" where
  "is_decimal c = (c \<in> set ''0123456789'')"

definition is_digit :: "char \<Rightarrow> bool" where
  "is_digit c = (if is_decimal c then True else c \<in> set [CHR 0xB2, CHR 0xB3, CHR 0xB9])"

definition is_word :: "char \<Rightarrow> bool" where
  "is_word c =
     (let n = (of_char c :: nat) in
      if 48 \<le> n \<and> n \<le> 57 then True
      else if 65 \<le> n \<and> n \<le> 90 then True
      else if n = 95 then True
      else if 97 \<le> n \<and> n \<le> 122 then True
      else if n \<in> set [170, 178, 179, 181, 185, 186, 188, 189, 190] then True
      else if 192 \<le> n \<and> n \<le> 214 then True
      else if 216 \<le> n \<and> n \<le> 246 then True
      else 248 \<le> n)"

definition py_lower :: "char \<Rightarrow> char" where
  "py_lower c =
     (let n = (of_char c :: nat) in
      if 65 \<le> n \<and> n \<le> 90 then char_of (n + 32)
      else if 192 \<le> n \<and> n \<le> 214 then char_of (n + 32)
      else if 216 \<le> n \<and> n \<le> 222 then char_of (n + 32)
      else c)"

definition lower :: "string \<Rightarrow> string" where
  "lower s = map py_lower s"

definition strip :: "string \<Rightarrow> string" where
  "strip s = rev (dropWhile is_space (rev (dropWhile is_space s)))"

text \<open>\<open>re.sub(r"\s+", " ", s)\<close>: every maximal run of whitespace becomes one blank. The
  flag says whether the character before was whitespace.\<close>

fun sub_ws :: "bool \<Rightarrow> string \<Rightarrow> string" where
  "sub_ws in_run [] = []"
| "sub_ws in_run (c # cs) =
     (if is_space c then (if in_run then sub_ws True cs else CHR 0x20 # sub_ws True cs)
      else c # sub_ws False cs)"

definition normalize_whitespace :: "string \<Rightarrow> string" where
  "normalize_whitespace s = strip (sub_ws False s)"

text \<open>\<open>str.splitlines()\<close>: a carriage return followed by a line feed is one boundary, and
  no empty line is produced after a final boundary.\<close>

fun splitlines_aux :: "string \<Rightarrow> string \<Rightarrow> string list" where
  "splitlines_aux cur [] = (if cur = [] then [] else [cur])"
| "splitlines_aux cur [c] = (if is_linebreak c then [cur] else [cur @ [c]])"
| "splitlines_aux cur (c # d # ds) =
     (if c = CHR 0x0D \<and> d = CHR 0x0A then cur # splitlines_aux [] ds
      else if is_linebreak c then cur # splitlines_aux [] (d # ds)
      else splitlines_aux (cur @ [c]) (d # ds))"

definition splitlines :: "string \<Rightarrow> string list" where
  "splitlines s = splitlines_aux [] s"

section \<open>Heading Matcher\<close>

text \<open>
  The three entries of \<open>CHAPTER_PATTERNS\<close>, each as the function that \<open>pat.match(ln)\<close>
  computes: the pair of group 2 and group 3, or \<open>None\<close>. All are compiled with
  \<open>re.IGNORECASE\<close>; on the code points of the model a letter of a pattern matches
  itself and its capital. Every quantifier is greedy, and giving characters back never
  helps: after a maximal run of a class the next character is outside the class, so the
  only position at which \<open>\b\<close> can hold is the end of the maximal run. The lines come
  from \<open>splitlines\<close> and hold no line feed, so \<open>(.*)$\<close> takes the whole rest.
\<close>

fun match_ci :: "string \<Rightarrow> string \<Rightarrow> string option" where
  "match_ci [] s = Some s"
| "match_ci (p # ps) [] = None"
| "match_ci (p # ps) (c # cs) = (if py_lower c = p then match_ci ps cs else None)"

definition is_roman :: "char \<Rightarrow> bool" where
  "is_roman c = (py_lower c \<in> set ''ivxlcdm'')"

definition is_letter :: "char \<Rightarrow> bool" where
  "is_letter c = (py_lower c \<in> set ''abcdefghijklmnopqrstuvwxyz'')"

definition word_next :: "string \<Rightarrow> bool" where
  "word_next s = (case s of [] \<Rightarrow> False | c # _ \<Rightarrow> is_word c)"

text \<open>A non-empty maximal run of the class, followed by \<open>\b\<close>, \<open>\s*\<close> and \<open>(.*)$\<close>.\<close>

definition run_then_rest :: "(char \<Rightarrow> bool) \<Rightarrow> string \<Rightarrow> (string \<times> string) option" where
  "run_then_rest cls s =
     (let g2 = takeWhile cls s; r = dropWhile cls s in
      if g2 = [] then None
      else if word_next r then None
      else Some (g2, dropWhile is_space r))"

text \<open>\<open>([0-9]+|[ivxlcdm]+)\b\s*(.*)$\<close>: the second alternative is tried when the first
  fails.\<close>

definition number_then_rest :: "string \<Rightarrow> (string \<times> string) option" where
  "number_then_rest s =
     (case run_then_rest is_decimal s of
        Some r \<Rightarrow> Some r
      | None \<Rightarrow> run_then_rest is_roman s)"

text \<open>\<open>^\s*(chapter)\s+\<close> and what follows it.\<close>

definition after_chapter :: "(string \<Rightarrow> (string \<times> string) option) \<Rightarrow> string
    \<Rightarrow> (string \<times> string) option" where
  "after_chapter k ln =
     (case match_ci ''chapter'' (dropWhile is_space ln) of
        None \<Rightarrow> None
      | Some r \<Rightarrow>
          (case r of
             [] \<Rightarrow> None
           | c # _ \<Rightarrow> if is_space c then k (dropWhile is_space r) else None))"

definition pat_chapter_number :: "string \<Rightarrow> (string \<times> string) option" where
  "pat_chapter_number ln = after_chapter number_then_rest ln"

definition pat_chapter_word :: "string \<Rightarrow> (string \<times> string) option" where
  "pat_chapter_word ln = after_chapter (run_then_rest is_letter) ln"

text \<open>\<open>\s*[-:]?\s*([0-9]+|[ivxlcdm]+)\b\s*(.*)$\<close>.\<close>

definition after_abbrev :: "string \<Rightarrow> (string \<times> string) option" where
  "after_abbrev s =
     (let s1 = dropWhile is_space s;
          s2 = (case s1 of [] \<Rightarrow> s1
                | c # cs \<Rightarrow> if c \<in> set ''-:'' then cs else s1)
      in number_then_rest (dropWhile is_space s2))"

text \<open>One alternative of \<open>(ch\.?|chap\.?)\<close>: the optional full stop is taken first and
  given back when the rest fails.\<close>

definition abbrev_alt :: "string \<Rightarrow> string \<Rightarrow> (string \<times> string) option" where
  "abbrev_alt kw s =
     (case match_ci kw s of
        None \<Rightarrow> None
      | Some r \<Rightarrow>
          (case r of
             [] \<Rightarrow> after_abbrev r
           | c # cs \<Rightarrow>
               if c = CHR ''.'' then
                 (case after_abbrev cs of Some x \<Rightarrow> Some x | None \<Rightarrow> after_abbrev r)
               else after_abbrev r))"

definition pat_abbrev_number :: "string \<Rightarrow> (string \<times> string) option" where
  "pat_abbrev_number ln =
     (let s = dropWhile is_space ln in
      case abbrev_alt ''ch'' s of
        Some x \<Rightarrow> Some x
      | None \<Rightarrow> abbrev_alt ''chap'' s)"

definition CHAPTER_PATTERNS :: "(string \<Rightarrow> (string \<times> string) option) list" where
  "CHAPTER_PATTERNS = [pat_chapter_number, pat_chapter_word, pat_abbrev_number]"

text \<open>\<open>for pat in CHAPTER_PATTERNS\<close>: the groups of the first pattern that matches.\<close>

fun first_match :: "(string \<Rightarrow> (string \<times> string) option) list \<Rightarrow> string
    \<Rightarrow> (string \<times> string) option" where
  "first_match [] ln = None"
| "first_match (pat # pats) ln =
     (case pat ln of Some m \<Rightarrow> Some m | None \<Rightarrow> first_match pats ln)"

text \<open>\<open>re.sub(r"^[-:...]+\s*", "", title)\<close>. The class also holds the en dash and the em
  dash, which lie beyond the code points of the model.\<close>

definition is_separator :: "char \<Rightarrow> bool" where
  "is_separator c = (c \<in> set ''-:'')"

definition strip_separator :: "string \<Rightarrow> string" where
  "strip_separator t =
     (case t of
        [] \<Rightarrow> t
      | c # _ \<Rightarrow> if is_separator c then dropWhile is_space (dropWhile is_separator t) else t)"

definition heading_result :: "string \<times> string \<Rightarrow> string \<times> string" where
  "heading_result m =
     (let label = normalize_whitespace (fst m);
          title = normalize_whitespace (snd m)
      in (label, strip (strip_separator title)))"

fun scan_heading_lines :: "string list \<Rightarrow> (string \<times> string) option" where
  "scan_heading_lines [] = None"
| "scan_heading_lines (ln # lns) =
     (if length ln > 140 then scan_heading_lines lns
      else case first_match CHAPTER_PATTERNS ln of
             Some m \<Rightarrow> Some (heading_result m)
           | None \<Rightarrow> scan_heading_lines lns)"

definition page_lines :: "string \<Rightarrow> string list" where
  "page_lines text = filter (\<lambda>ln. ln \<noteq> []) (map strip (splitlines text))"

definition find_chapter_heading_on_page :: "string \<Rightarrow> (string \<times> string) option" where
  "find_chapter_heading_on_page text =
     (let lines = page_lines text in
      if lines = [] then None else scan_heading_lines (take 25 lines))"

section \<open>Documents and chapters\<close>

text \<open>
  A document is what the detectors read of it: \<open>doc.get_toc()\<close>, a list of
  (level, title, one-based page), and the text of each page; \<open>len(doc)\<close> is the number
  of pages. Page numbers and levels are Python integers.
\<close>

record document =
  toc :: "(int \<times> string \<times> int) list"
  pages :: "string list"

definition page_count :: "document \<Rightarrow> int" where
  "page_count doc = int (length (pages doc))"

record Chapter =
  label :: string
  title :: string
  start_page :: int
  end_page :: int

section \<open>Outline-Based Detector\<close>

text \<open>
  \<open>TOC_CHAPTER_HINT.search(title)\<close> for the pattern
  \<open>\bchapter\b|\bch\.\b|\bchap\.\b\<close>: some position of the title, with a word boundary
  before it, starts one of the three alternatives. After \<open>chapter\<close> the boundary asks
  for no word character next; after the full stop of \<open>ch.\<close> and \<open>chap.\<close> it asks
  for a word character next.
\<close>

definition hint_chapter :: "string \<Rightarrow> bool" where
  "hint_chapter s = (case match_ci ''chapter'' s of None \<Rightarrow> False | Some r \<Rightarrow> \<not> word_next r)"

definition hint_dotted :: "string \<Rightarrow> string \<Rightarrow> bool" where
  "hint_dotted kw s =
     (case match_ci kw s of
        None \<Rightarrow> False
      | Some r \<Rightarrow> (case r of [] \<Rightarrow> False | c # cs \<Rightarrow> c = CHR ''.'' \<and> word_next cs))"

definition hint_here :: "string \<Rightarrow> bool" where
  "hint_here s =
     (if hint_chapter s then True
      else if hint_dotted ''ch'' s then True
      else hint_dotted ''chap'' s)"

fun hint_search :: "bool \<Rightarrow> string \<Rightarrow> bool" where
  "hint_search prev_word [] = False"
| "hint_search prev_word (c # cs) =
     (if \<not> prev_word \<and> hint_here (c # cs) then True else hint_search (is_word c) cs)"

definition TOC_CHAPTER_HINT :: "string \<Rightarrow> bool" where
  "TOC_CHAPTER_HINT s = hint_search False s"

definition toc_entries :: "(int \<times> string \<times> int) list \<Rightarrow> (int \<times> string \<times> int) list" where
  "toc_entries t =
     (let chapter_like = filter (\<lambda>(lvl, ttl, page). TOC_CHAPTER_HINT ttl) t in
      if chapter_like \<noteq> [] then chapter_like
      else filter (\<lambda>(lvl, ttl, page). lvl = 1) t)"

text \<open>The loop that fills \<open>starts\<close> and \<open>seen_pages\<close>; \<open>n\<close> is \<open>len(doc)\<close>.\<close>

fun toc_starts :: "int \<Rightarrow> (int \<times> string \<times> int) list \<Rightarrow> (int \<times> string) list \<Rightarrow> int set
    \<Rightarrow> (int \<times> string) list" where
  "toc_starts n [] starts seen_pages = starts"
| "toc_starts n ((lvl, ttl, page1) # es) starts seen_pages =
     (if page1 = 0 then toc_starts n es starts seen_pages
      else
        let start0 = max 0 (min (page1 - 1) (n - 1)) in
        if start0 \<in> seen_pages then toc_starts n es starts seen_pages
        else toc_starts n es (starts @ [(start0, normalize_whitespace ttl)])
               (insert start0 seen_pages))"

definition toc_sorted_starts :: "document \<Rightarrow> (int \<times> string) list" where
  "toc_sorted_starts doc =
     sort_key fst (toc_starts (page_count doc) (toc_entries (toc doc)) [] {})"

text \<open>The list \<open>chapters\<close>, before the last pass.\<close>

fun toc_chapters :: "int \<Rightarrow> (int \<times> string) list \<Rightarrow> Chapter list" where
  "toc_chapters n [] = []"
| "toc_chapters n ((sp, ttl) # rest) =
     (let ep = (case rest of [] \<Rightarrow> n - 1 | (sp', _) # _ \<Rightarrow> sp' - 1) in
      \<lparr>label = ''TOC'', title = ttl, start_page = sp, end_page = max sp ep\<rparr>
        # toc_chapters n rest)"

text \<open>The last pass, which builds \<open>filtered\<close>.\<close>

fun toc_filtered :: "int \<Rightarrow> Chapter list \<Rightarrow> Chapter list" where
  "toc_filtered last_sp [] = []"
| "toc_filtered last_sp (ch # chs) =
     (if start_page ch - last_sp \<ge> 1 then ch # toc_filtered (start_page ch) chs
      else toc_filtered last_sp chs)"

definition chapters_from_toc :: "document \<Rightarrow> Chapter list" where
  "chapters_from_toc doc =
     (if toc doc = [] then []
      else
        let starts = toc_sorted_starts doc in
        if starts = [] then []
        else toc_filtered (- 9999) (toc_chapters (page_count doc) starts))"

section \<open>Scan-Based Detector\<close>

definition page_text :: "document \<Rightarrow> nat \<Rightarrow> string" where
  "page_text doc i = pages doc ! i"

fun scan_hits_from :: "document \<Rightarrow> nat list \<Rightarrow> (int \<times> string \<times> string) list" where
  "scan_hits_from doc [] = []"
| "scan_hits_from doc (i # is) =
     (case find_chapter_heading_on_page (page_text doc i) of
        Some (lbl, ttl) \<Rightarrow> (int i, lbl, ttl) # scan_hits_from doc is
      | None \<Rightarrow> scan_hits_from doc is)"

definition scan_hits :: "document \<Rightarrow> (int \<times> string \<times> string) list" where
  "scan_hits doc = scan_hits_from doc [0 ..< length (pages doc)]"

fun scan_dedup :: "int \<Rightarrow> (int \<times> string \<times> string) list \<Rightarrow> (int \<times> string \<times> string) list" where
  "scan_dedup last_page [] = []"
| "scan_dedup last_page ((page_i, lbl, ttl) # hits) =
     (if page_i - last_page \<ge> 2 then (page_i, lbl, ttl) # scan_dedup page_i hits
      else scan_dedup last_page hits)"

fun scan_chapters :: "int \<Rightarrow> (int \<times> string \<times> string) list \<Rightarrow> Chapter list" where
  "scan_chapters n [] = []"
| "scan_chapters n ((sp, lbl, ttl) # rest) =
     (let ep = (case rest of [] \<Rightarrow> n - 1 | (sp', _) # _ \<Rightarrow> sp' - 1) in
      \<lparr>label = lbl, title = ttl, start_page = sp, end_page = max sp ep\<rparr>
        # scan_chapters n rest)"

definition chapters_by_scanning :: "document \<Rightarrow> Chapter list" where
  "chapters_by_scanning doc =
     (let hits = scan_hits doc in
      if hits = [] then []
      else scan_chapters (page_count doc) (scan_dedup (- 9999) hits))"

section \<open>Chapter Resolver\<close>

definition detect_chapters :: "document \<Rightarrow> Chapter list" where
  "detect_chapters doc =
     (let toc_ch = chapters_from_toc doc in
      if toc_ch \<noteq> [] then toc_ch else chapters_by_scanning doc)"

section \<open>Chunker\<close>

text \<open>
  \<open>re.split(r"\n\s*\n", text)\<close>. A match starts at a line feed and, the run of
  whitespace being greedy, ends at the last line feed of the whitespace that follows;
  where that whitespace holds no line feed there is no match at this position. The
  search goes on behind the match.
\<close>

definition after_last_newline :: "string \<Rightarrow> string" where
  "after_last_newline ws = rev (takeWhile (\<lambda>c. c \<noteq> CHR 0x0A) (rev ws))"

function split_paragraphs_aux :: "string \<Rightarrow> string \<Rightarrow> string list" where
  "split_paragraphs_aux cur [] = [cur]"
| "split_paragraphs_aux cur (c # cs) =
     (if c = CHR 0x0A \<and> CHR 0x0A \<in> set (takeWhile is_space cs)
      then cur # split_paragraphs_aux []
                   (after_last_newline (takeWhile is_space cs) @ dropWhile is_space cs)
      else split_paragraphs_aux (cur @ [c]) cs)"
  by pat_completeness auto
termination
proof -
  have shorter: "length (after_last_newline (takeWhile is_space cs))
      + length (dropWhile is_space cs) \<le> length cs" for cs :: string
  proof -
    have "length (takeWhile is_space cs) + length (dropWhile is_space cs) = length cs"
      by (metis length_append takeWhile_dropWhile_id)
    moreover have "length (takeWhile (\<lambda>c. c \<noteq> CHR 0x0A) (rev (takeWhile is_space cs)))
        \<le> length (rev (takeWhile is_space cs))"
      by (rule length_takeWhile_le)
    ultimately show ?thesis by (simp add: after_last_newline_def)
  qed
  show ?thesis
    by (relation "measure (\<lambda>(cur, s). length s)") (auto simp: less_Suc_eq_le shorter)
qed

definition paragraphs :: "string \<Rightarrow> string list" where
  "paragraphs text =
     filter (\<lambda>p. p \<noteq> []) (map strip (split_paragraphs_aux [] text))"

text \<open>
  \<open>re.split(r"(?<=[.!?])\s+", p)\<close>: a maximal run of whitespace that follows a full
  stop, an exclamation mark or a question mark separates two parts. The flag says
  whether the character before is one of the three.
\<close>

function split_sentences_aux :: "bool \<Rightarrow> string \<Rightarrow> string \<Rightarrow> string list" where
  "split_sentences_aux after_stop cur [] = [cur]"
| "split_sentences_aux after_stop cur (c # cs) =
     (if is_space c \<and> after_stop
      then cur # split_sentences_aux False [] (dropWhile is_space cs)
      else split_sentences_aux (c \<in> set ''.!?'') (cur @ [c]) cs)"
  by pat_completeness auto
termination
  by (relation "measure (\<lambda>(b, cur, s). length s)")
     (auto simp: less_Suc_eq_le length_dropWhile_le)

definition split_sentences :: "string \<Rightarrow> string list" where
  "split_sentences p = split_sentences_aux False [] p"

text \<open>The loop over \<open>parts\<close>, with the buffer \<open>buf\<close>; it returns the chunks it appends,
  the one appended after the loop included.\<close>

fun pack_parts :: "int \<Rightarrow> string \<Rightarrow> string list \<Rightarrow> string list" where
  "pack_parts max_chars buf [] = (if buf \<noteq> [] then [buf] else [])"
| "pack_parts max_chars buf (part0 # parts) =
     (let part = strip part0 in
      if part = [] then pack_parts max_chars buf parts
      else if int (length buf) + int (length part) + 1 \<le> max_chars
      then pack_parts max_chars (strip (buf @ '' '' @ part)) parts
      else if buf \<noteq> [] then buf # pack_parts max_chars part parts
      else pack_parts max_chars part parts)"

text \<open>The body of the loop over \<open>paragraphs\<close>: the chunks one paragraph appends.\<close>

definition chunk_paragraph :: "int \<Rightarrow> string \<Rightarrow> string list" where
  "chunk_paragraph max_chars p0 =
     (let p = normalize_whitespace p0 in
      if int (length p) \<le> max_chars then [p]
      else pack_parts max_chars [] (split_sentences p))"

definition chunk_text_for_speaking :: "string \<Rightarrow> int \<Rightarrow> string list" where
  "chunk_text_for_speaking text max_chars =
     foldl (\<lambda>chunks p. chunks @ chunk_paragraph max_chars p) [] (paragraphs text)"

section \<open>Narration Session\<close>

text \<open>
  \<open>val.isdigit()\<close> and \<open>int(val)\<close>. On a string that passed \<open>isdigit\<close>, \<open>int\<close> returns
  the decimal value when every character is a decimal digit and raises \<open>ValueError\<close>
  otherwise. The limit that recent interpreters put on the number of digits is not
  modelled.
\<close>

datatype py_error = ValueError | EOFError

definition isdigit :: "string \<Rightarrow> bool" where
  "isdigit s = (s \<noteq> [] \<and> list_all is_digit s)"

definition decimal_value :: "string \<Rightarrow> int" where
  "decimal_value s = foldl (\<lambda>a c. 10 * a + (int (of_char c) - 48)) 0 s"

definition py_int :: "string \<Rightarrow> py_error + int" where
  "py_int s = (if s \<noteq> [] \<and> list_all is_decimal s then Inr (decimal_value s)
               else Inl ValueError)"

text \<open>
  The loop of \<open>narrate_pages\<close>, run on the lines that \<open>input()\<close> returns; at the end of
  the input \<open>input()\<close> raises \<open>EOFError\<close>. The event \<open>Narrate p\<close> stands for the header of
  page \<open>p\<close>, the speaking of its chunks and the line of controls; \<open>Print\<close> is a message of
  the command handling. The result is how the loop ended, the page it ended at and the
  events so far. The arguments \<open>start_pg\<close> and \<open>end_pg\<close> are the source's
  \<open>start_page\<close> and \<open>end_page\<close>.
\<close>

datatype event = Narrate int | Print string

datatype status = Finished | Stopped | Raised py_error

fun narrate_loop :: "int \<Rightarrow> int \<Rightarrow> int \<Rightarrow> event list \<Rightarrow> string list
    \<Rightarrow> status \<times> int \<times> event list" where
  "narrate_loop start_pg end_pg page tr [] =
     (if page \<le> end_pg then (Raised EOFError, page, tr @ [Narrate page])
      else (Finished, page, tr))"
| "narrate_loop start_pg end_pg page tr (raw # rest) =
     (if \<not> page \<le> end_pg then (Finished, page, tr)
      else
        let cmd = lower (strip raw); tr1 = tr @ [Narrate page] in
        if cmd = [] then narrate_loop start_pg end_pg (page + 1) tr1 rest
        else if cmd = ''b'' then
          narrate_loop start_pg end_pg (max start_pg (page - 1)) tr1 rest
        else if cmd = ''r'' then narrate_loop start_pg end_pg page tr1 rest
        else if cmd = ''g'' then
          (case rest of
             [] \<Rightarrow> (Raised EOFError, page, tr1)
           | raw_val # rest' \<Rightarrow>
               let val = strip raw_val in
               if isdigit val then
                 (case py_int val of
                    Inl e \<Rightarrow> (Raised e, page, tr1)
                  | Inr k \<Rightarrow>
                      let target = k - 1 in
                      if start_pg \<le> target \<and> target \<le> end_pg
                      then narrate_loop start_pg end_pg target tr1 rest'
                      else narrate_loop start_pg end_pg page
                             (tr1 @ [Print ''Out of range.'']) rest')
               else narrate_loop start_pg end_pg page
                      (tr1 @ [Print ''Invalid page number.'']) rest')
        else if cmd = ''q'' then (Stopped, page, tr1)
        else narrate_loop start_pg end_pg (page + 1)
               (tr1 @ [Print ''Unknown command. Moving to next page.'']) rest)"

definition narrate_pages :: "int \<Rightarrow> int \<Rightarrow> string list \<Rightarrow> status \<times> int \<times> event list" where
  "narrate_pages start_pg end_pg inputs =
     narrate_loop start_pg end_pg start_pg [] inputs"

section \<open>Notions used to state the properties\<close>

text \<open>A chapter list is a chain up to the last page \<open>n - 1\<close>: every chapter is a non-empty
  range, each begins right behind the one before, and the last ends at \<open>n - 1\<close>.\<close>

fun chain_to :: "int \<Rightarrow> Chapter list \<Rightarrow> bool" where
  "chain_to n [] = True"
| "chain_to n [c] = (start_page c \<le> end_page c \<and> end_page c = n - 1)"
| "chain_to n (c # d # cs) =
     (start_page c \<le> end_page c \<and> end_page c + 1 = start_page d \<and> chain_to n (d # cs))"

text \<open>The deduplication of the Scan-Based Detector as the specification words it: the
  first match is kept, and a later match is kept when its page is at least 2 greater
  than the page of the match kept before it.\<close>

fun keep_after :: "int \<Rightarrow> (int \<times> string \<times> string) list \<Rightarrow> (int \<times> string \<times> string) list" where
  "keep_after kept [] = []"
| "keep_after kept (h # hs) =
     (if kept + 2 \<le> fst h then h # keep_after (fst h) hs else keep_after kept hs)"

definition keep_two_apart :: "(int \<times> string \<times> string) list \<Rightarrow> (int \<times> string \<times> string) list" where
  "keep_two_apart hs = (case hs of [] \<Rightarrow> [] | h # hs' \<Rightarrow> h # keep_after (fst h) hs')"

text \<open>The candidate start page of an outline entry with one-based page \<open>page1\<close>.\<close>

definition clamp_start :: "int \<Rightarrow> int \<Rightarrow> int" where
  "clamp_start n page1 = max 0 (min (page1 - 1) (n - 1))"

section \<open>Properties of the Outline-Based Detector\<close>

lemma toc_starts_keys:
  "seen = fst ` set starts \<Longrightarrow>
   fst ` set (toc_starts n es starts seen) =
     fst ` set starts \<union> clamp_start n ` {p \<in> (snd \<circ> snd) ` set es. p \<noteq> 0}"
proof (induction n es starts seen rule: toc_starts.induct)
  case (1 n starts seen_pages)
  then show ?case by simp
next
  case (2 n lvl ttl page1 es starts seen_pages)
  let ?A = "{p \<in> (snd \<circ> snd) ` set es. p \<noteq> 0}"
  have split: "{p \<in> (snd \<circ> snd) ` set ((lvl, ttl, page1) # es). p \<noteq> 0}
                 = (if page1 = 0 then ?A else insert page1 ?A)"
    by auto
  show ?case
  proof (cases "page1 = 0")
    case True
    with 2 split show ?thesis by simp
  next
    case False
    show ?thesis
    proof (cases "clamp_start n page1 \<in> seen_pages")
      case True
      have "fst ` set (toc_starts n es starts seen_pages) = fst ` set starts \<union> clamp_start n ` ?A"
        using 2(2)[OF False _ True] 2(4) by (simp add: clamp_start_def)
      moreover have "toc_starts n ((lvl, ttl, page1) # es) starts seen_pages
                       = toc_starts n es starts seen_pages"
        using False True by (simp add: clamp_start_def)
      ultimately show ?thesis using False True 2(4) split by auto
    next
      case notin: False
      let ?st = "starts @ [(clamp_start n page1, normalize_whitespace ttl)]"
      have "fst ` set (toc_starts n es ?st (insert (clamp_start n page1) seen_pages))
              = fst ` set ?st \<union> clamp_start n ` ?A"
        using 2(3)[OF False _ _] notin 2(4) by (simp add: clamp_start_def)
      moreover have "toc_starts n ((lvl, ttl, page1) # es) starts seen_pages
                       = toc_starts n es ?st (insert (clamp_start n page1) seen_pages)"
        using False notin by (simp add: clamp_start_def Let_def)
      ultimately show ?thesis using False split by auto
    qed
  qed
qed

lemma toc_starts_distinct:
  "seen = fst ` set starts \<Longrightarrow> distinct (map fst starts) \<Longrightarrow>
   distinct (map fst (toc_starts n es starts seen))"
  by (induction n es starts seen rule: toc_starts.induct) (auto simp: Let_def)

lemma distinct_map_insort_key:
  "distinct (map f (insort_key f x xs)) = (f x \<notin> f ` set xs \<and> distinct (map f xs))"
  by (induction xs) (auto simp: set_insort_key)

lemma distinct_map_sort_key: "distinct (map f (sort_key f xs)) = distinct (map f xs)"
  by (induction xs) (simp_all add: distinct_map_insort_key)

lemma toc_sorted_starts_strict: "sorted_wrt (<) (map fst (toc_sorted_starts doc))"
proof -
  have "sorted (map fst (toc_sorted_starts doc))"
    by (simp add: toc_sorted_starts_def sorted_sort_key)
  moreover have "distinct (map fst (toc_sorted_starts doc))"
    by (simp add: toc_sorted_starts_def distinct_map_sort_key toc_starts_distinct)
  ultimately show ?thesis by (simp add: strict_sorted_iff)
qed

lemma toc_sorted_starts_keys:
  "fst ` set (toc_sorted_starts doc) =
     clamp_start (page_count doc) ` {p \<in> (snd \<circ> snd) ` set (toc_entries (toc doc)). p \<noteq> 0}"
  by (simp add: toc_sorted_starts_def toc_starts_keys)

lemma toc_chapters_starts: "map start_page (toc_chapters n starts) = map fst starts"
  by (induction n starts rule: toc_chapters.induct) (simp_all add: Let_def)

lemma toc_chapters_label: "c \<in> set (toc_chapters n starts) \<Longrightarrow> label c = ''TOC''"
  by (induction n starts rule: toc_chapters.induct) (auto simp: Let_def)

lemma toc_chapters_chain:
  "sorted_wrt (<) (map fst starts) \<Longrightarrow> \<forall>s \<in> fst ` set starts. s \<le> n - 1 \<Longrightarrow>
   chain_to n (toc_chapters n starts)"
proof (induction n starts rule: toc_chapters.induct)
  case (1 n)
  then show ?case by simp
next
  case (2 n sp ttl rest)
  show ?case
  proof (cases rest)
    case Nil
    with 2 show ?thesis by simp
  next
    case (Cons r rs)
    obtain sp' t' where r: "r = (sp', t')" by (cases r)
    from 2 Cons r have "chain_to n (toc_chapters n rest)" by simp
    moreover from 2 Cons r have "sp < sp'" by simp
    ultimately show ?thesis using Cons r by (simp add: Let_def)
  qed
qed

lemma toc_filtered_id:
  "sorted_wrt (<) (map start_page cs) \<Longrightarrow> \<forall>c \<in> set cs. last_sp < start_page c \<Longrightarrow>
   toc_filtered last_sp cs = cs"
  by (induction cs arbitrary: last_sp) auto

lemma clamp_start_nonneg: "0 \<le> clamp_start n p"
  by (simp add: clamp_start_def)

lemma clamp_start_le: "1 \<le> n \<Longrightarrow> clamp_start n p \<le> n - 1"
  by (simp add: clamp_start_def)

lemma toc_chapters_start_nonneg:
  assumes "c \<in> set (toc_chapters (page_count doc) (toc_sorted_starts doc))"
  shows "0 \<le> start_page c"
proof -
  from assms have "start_page c \<in> set (map start_page
      (toc_chapters (page_count doc) (toc_sorted_starts doc)))"
    by simp
  then have "start_page c \<in> fst ` set (toc_sorted_starts doc)"
    by (simp add: toc_chapters_starts)
  then obtain p where "start_page c = clamp_start (page_count doc) p"
    unfolding toc_sorted_starts_keys by blast
  then show ?thesis by (simp add: clamp_start_nonneg)
qed

lemma toc_filtered_unchanged:
  "toc_filtered (- 9999) (toc_chapters (page_count doc) (toc_sorted_starts doc))
     = toc_chapters (page_count doc) (toc_sorted_starts doc)"
proof (rule toc_filtered_id)
  show "sorted_wrt (<) (map start_page (toc_chapters (page_count doc) (toc_sorted_starts doc)))"
    by (simp add: toc_chapters_starts toc_sorted_starts_strict)
next
  show "\<forall>c \<in> set (toc_chapters (page_count doc) (toc_sorted_starts doc)).
               - 9999 < start_page c"
    using toc_chapters_start_nonneg by fastforce
qed

section \<open>Properties of chains\<close>

lemma chain_to_first_least:
  "chain_to n cs \<Longrightarrow> c \<in> set cs \<Longrightarrow> start_page (hd cs) \<le> start_page c"
  by (induction n cs rule: chain_to.induct) auto

lemma chain_to_ranges:
  "chain_to n cs \<Longrightarrow> \<forall>c \<in> set cs. start_page c \<le> end_page c \<and> end_page c \<le> n - 1"
  by (induction n cs rule: chain_to.induct) auto

lemma chain_to_sorted: "chain_to n cs \<Longrightarrow> sorted_wrt (<) (map start_page cs)"
proof (induction n cs rule: chain_to.induct)
  case (3 n c d cs)
  then have "\<forall>x \<in> set (d # cs). start_page d \<le> start_page x"
    using chain_to_first_least[of n "d # cs"] by auto
  with 3 show ?case by auto
qed simp_all

lemma chain_to_disjoint:
  "chain_to n cs \<Longrightarrow> sorted_wrt (\<lambda>a b. end_page a < start_page b) cs"
proof (induction n cs rule: chain_to.induct)
  case (3 n c d cs)
  then have "\<forall>x \<in> set (d # cs). start_page d \<le> start_page x"
    using chain_to_first_least[of n "d # cs"] by auto
  with 3 show ?case by auto
qed simp_all

lemma chain_to_adjacent:
  "chain_to n cs \<Longrightarrow> Suc i < length cs \<Longrightarrow> end_page (cs ! i) + 1 = start_page (cs ! Suc i)"
proof (induction n cs arbitrary: i rule: chain_to.induct)
  case (3 n c d cs)
  then show ?case by (cases i) auto
qed simp_all

lemma chain_to_last: "chain_to n cs \<Longrightarrow> cs \<noteq> [] \<Longrightarrow> end_page (last cs) = n - 1"
  by (induction n cs rule: chain_to.induct) auto

lemma chain_to_cover:
  "chain_to n cs \<Longrightarrow> cs \<noteq> [] \<Longrightarrow>
   (\<Union>c \<in> set cs. {start_page c .. end_page c}) = {start_page (hd cs) .. n - 1}"
proof (induction n cs rule: chain_to.induct)
  case (3 n c d cs)
  then have rest: "(\<Union>x \<in> set (d # cs). {start_page x .. end_page x}) = {start_page d .. n - 1}"
    by simp
  from 3 have "start_page d \<le> end_page d \<and> end_page d \<le> n - 1"
    using chain_to_ranges[of n "d # cs"] by simp
  with 3 have "{start_page c .. end_page c} \<union> {start_page d .. n - 1} = {start_page c .. n - 1}"
    by auto
  with rest show ?case by simp
qed simp_all

section \<open>Properties of the Scan-Based Detector\<close>

lemma scan_hits_from_pages:
  "map fst (scan_hits_from doc js) =
     map int (filter (\<lambda>i. find_chapter_heading_on_page (page_text doc i) \<noteq> None) js)"
  by (induction js) (auto split: option.splits)

lemma scan_hits_sorted: "sorted_wrt (<) (map fst (scan_hits doc))"
proof -
  have "sorted_wrt (<) (filter (\<lambda>i. find_chapter_heading_on_page (page_text doc i) \<noteq> None)
          [0 ..< length (pages doc)])"
    by (rule sorted_wrt_filter) simp
  then show ?thesis
    by (simp add: scan_hits_def scan_hits_from_pages sorted_wrt_map)
qed

lemma scan_hits_bounds:
  assumes "h \<in> set (scan_hits doc)"
  shows "0 \<le> fst h \<and> fst h \<le> page_count doc - 1"
proof -
  from assms have "fst h \<in> set (map fst (scan_hits doc))" by simp
  then obtain i where "fst h = int i" "i < length (pages doc)"
    by (auto simp: scan_hits_def scan_hits_from_pages)
  then show ?thesis by (simp add: page_count_def)
qed

lemma scan_dedup_subset: "set (scan_dedup last_page hs) \<subseteq> set hs"
  by (induction last_page hs rule: scan_dedup.induct) auto

lemma scan_dedup_sorted:
  "sorted_wrt (<) (map fst hs) \<Longrightarrow> sorted_wrt (<) (map fst (scan_dedup last_page hs))"
proof (induction last_page hs rule: scan_dedup.induct)
  case (2 last_page page_i lbl ttl hits)
  then show ?case using scan_dedup_subset[of page_i hits] by auto
qed simp

lemma scan_chapters_chain:
  "sorted_wrt (<) (map fst ks) \<Longrightarrow> \<forall>p \<in> fst ` set ks. p \<le> n - 1 \<Longrightarrow>
   chain_to n (scan_chapters n ks)"
proof (induction n ks rule: scan_chapters.induct)
  case (1 n)
  then show ?case by simp
next
  case (2 n sp lbl ttl rest)
  show ?case
  proof (cases rest)
    case Nil
    with 2 show ?thesis by simp
  next
    case (Cons r rs)
    obtain sp' l' t' where r: "r = (sp', l', t')" by (cases r)
    from 2 Cons r have "chain_to n (scan_chapters n rest)" by simp
    moreover from 2 Cons r have "sp < sp'" by simp
    ultimately show ?thesis using Cons r by (simp add: Let_def)
  qed
qed

lemma chapters_by_scanning_chain: "chain_to (page_count doc) (chapters_by_scanning doc)"
proof (cases "scan_hits doc = []")
  case True
  then show ?thesis by (simp add: chapters_by_scanning_def)
next
  case False
  have "sorted_wrt (<) (map fst (scan_dedup (- 9999) (scan_hits doc)))"
    by (rule scan_dedup_sorted) (rule scan_hits_sorted)
  moreover have "\<forall>p \<in> fst ` set (scan_dedup (- 9999) (scan_hits doc)). p \<le> page_count doc - 1"
    using scan_dedup_subset[of "- 9999" "scan_hits doc"] scan_hits_bounds[of _ doc] by blast
  ultimately have "chain_to (page_count doc)
      (scan_chapters (page_count doc) (scan_dedup (- 9999) (scan_hits doc)))"
    by (rule scan_chapters_chain)
  with False show ?thesis by (simp add: chapters_by_scanning_def)
qed

lemma scan_dedup_keep_after: "scan_dedup kept hs = keep_after kept hs"
  by (induction kept hs rule: scan_dedup.induct) auto

lemma scan_dedup_first:
  "- 9997 \<le> fst h \<Longrightarrow> scan_dedup (- 9999) (h # hs) = h # keep_after (fst h) hs"
  by (cases h) (auto simp: scan_dedup_keep_after)

lemma scan_dedup_keep_two_apart:
  "scan_dedup (- 9999) (scan_hits doc) = keep_two_apart (scan_hits doc)"
proof (cases "scan_hits doc")
  case Nil
  then show ?thesis by (simp add: keep_two_apart_def)
next
  case (Cons h hs)
  then have "0 \<le> fst h" using scan_hits_bounds[of h doc] by simp
  then have "scan_dedup (- 9999) (h # hs) = h # keep_after (fst h) hs"
    by (intro scan_dedup_first) simp
  with Cons show ?thesis by (simp add: keep_two_apart_def)
qed

section \<open>The detectors return chains\<close>

lemma chapters_from_toc_unfiltered:
  "chapters_from_toc doc =
     (if toc doc = [] then [] else toc_chapters (page_count doc) (toc_sorted_starts doc))"
proof (cases "toc_sorted_starts doc = []")
  case True
  then show ?thesis by (simp add: chapters_from_toc_def)
next
  case False
  then show ?thesis by (simp add: chapters_from_toc_def toc_filtered_unchanged)
qed

lemma chapters_from_toc_chain:
  assumes "pages doc \<noteq> []"
  shows "chain_to (page_count doc) (chapters_from_toc doc)"
proof (cases "toc doc = []")
  case True
  then show ?thesis by (simp add: chapters_from_toc_def)
next
  case False
  from assms have n: "1 \<le> page_count doc"
    by (cases "pages doc") (simp_all add: page_count_def)
  have "\<forall>s \<in> fst ` set (toc_sorted_starts doc). s \<le> page_count doc - 1"
    unfolding toc_sorted_starts_keys using clamp_start_le[OF n] by blast
  with toc_sorted_starts_strict
  have "chain_to (page_count doc) (toc_chapters (page_count doc) (toc_sorted_starts doc))"
    by (rule toc_chapters_chain)
  with False show ?thesis by (simp add: chapters_from_toc_unfiltered)
qed

section \<open>The claims\<close>

text \<open>
  C1 (as amended). On every document, any non-empty chapter list of the Scan-Based
  Detector, and on every document with at least one page any non-empty chapter list of
  the Outline-Based Detector, is sorted strictly ascending by \<open>start_page\<close>, has mutually
  disjoint ranges, is gap-free (\<open>chapters[i].end_page + 1 = chapters[i+1].start_page\<close>),
  ends at \<open>pageCount - 1\<close>, has \<open>end_page \<ge> start_page\<close> in every chapter, and the union of
  its ranges is exactly the interval from the first start page to \<open>pageCount - 1\<close>.
\<close>

theorem detector_chapters_partition:
  assumes "cs = chapters_by_scanning doc \<or> (cs = chapters_from_toc doc \<and> pages doc \<noteq> [])"
    and "cs \<noteq> []"
  shows "sorted_wrt (<) (map start_page cs)
       \<and> (\<forall>i j. i < j \<and> j < length cs \<longrightarrow> end_page (cs ! i) < start_page (cs ! j))
       \<and> (\<forall>i. Suc i < length cs \<longrightarrow> end_page (cs ! i) + 1 = start_page (cs ! Suc i))
       \<and> end_page (last cs) = page_count doc - 1
       \<and> (\<forall>c \<in> set cs. start_page c \<le> end_page c)
       \<and> (\<Union>c \<in> set cs. {start_page c .. end_page c})
           = {start_page (hd cs) .. page_count doc - 1}"
proof -
  from assms(1) have chain: "chain_to (page_count doc) cs"
    using chapters_by_scanning_chain chapters_from_toc_chain by auto
  have "sorted_wrt (<) (map start_page cs)"
    using chain by (rule chain_to_sorted)
  moreover have "\<forall>i j. i < j \<and> j < length cs \<longrightarrow> end_page (cs ! i) < start_page (cs ! j)"
    using chain_to_disjoint[OF chain] by (simp add: sorted_wrt_iff_nth_less)
  moreover have "\<forall>i. Suc i < length cs \<longrightarrow> end_page (cs ! i) + 1 = start_page (cs ! Suc i)"
    using chain_to_adjacent[OF chain] by blast
  moreover have "end_page (last cs) = page_count doc - 1"
    using chain assms(2) by (rule chain_to_last)
  moreover have "\<forall>c \<in> set cs. start_page c \<le> end_page c"
    using chain_to_ranges[OF chain] by blast
  moreover have "(\<Union>c \<in> set cs. {start_page c .. end_page c})
                   = {start_page (hd cs) .. page_count doc - 1}"
    using chain assms(2) by (rule chain_to_cover)
  ultimately show ?thesis by blast
qed

theorem detector_chapters_partition_witness:
  "pages \<lparr>toc = [(1, ''Chapter One'', 1), (1, ''Chapter Two'', 10)], pages = replicate 20 []\<rparr> \<noteq> []
   \<and> chapters_from_toc
        \<lparr>toc = [(1, ''Chapter One'', 1), (1, ''Chapter Two'', 10)], pages = replicate 20 []\<rparr> \<noteq> []
   \<and> end_page (last (chapters_from_toc
        \<lparr>toc = [(1, ''Chapter One'', 1), (1, ''Chapter Two'', 10)], pages = replicate 20 []\<rparr>)) = 19
   \<and> chapters_by_scanning \<lparr>toc = [], pages = [''Chapter 1 Intro'', ''text'', ''Chapter 2'']\<rparr> \<noteq> []
   \<and> end_page (last (chapters_by_scanning
        \<lparr>toc = [], pages = [''Chapter 1 Intro'', ''text'', ''Chapter 2'']\<rparr>)) = 2"
proof -
  let ?d = "\<lparr>toc = [(1, ''Chapter One'', 1), (1, ''Chapter Two'', 10)], pages = replicate 20 []\<rparr>"
  let ?e = "\<lparr>toc = [], pages = [''Chapter 1 Intro'', ''text'', ''Chapter 2'']\<rparr>"
  have pg: "pages ?d \<noteq> []" by simp
  have ne: "chapters_from_toc ?d \<noteq> []" by code_simp
  have nd: "page_count ?d = 20" by (simp add: page_count_def)
  have "end_page (last (chapters_from_toc ?d)) = page_count ?d - 1"
    using detector_chapters_partition[of "chapters_from_toc ?d" ?d] pg ne by blast
  with nd have a: "end_page (last (chapters_from_toc ?d)) = 19" by simp
  have ns: "chapters_by_scanning ?e \<noteq> []" by code_simp
  have ne': "page_count ?e = 3" by (simp add: page_count_def)
  have "end_page (last (chapters_by_scanning ?e)) = page_count ?e - 1"
    using detector_chapters_partition[of "chapters_by_scanning ?e" ?e] ns by blast
  with ne' have b: "end_page (last (chapters_by_scanning ?e)) = 2" by simp
  from pg ne a ns b show ?thesis by blast
qed

text \<open>
  C1 as stated also covers a document without pages. There the Outline-Based Detector
  clamps the start page to 0 and the end page to the start page, so the one chapter it
  returns ends at page 0 and not at \<open>pageCount - 1 = -1\<close>.
\<close>

theorem zero_page_outline_counterexample:
  "chapters_from_toc \<lparr>toc = [(1, ''Chapter One'', 1)], pages = []\<rparr>
     = [\<lparr>label = ''TOC'', title = ''Chapter One'', start_page = 0, end_page = 0\<rparr>]
   \<and> end_page (last (chapters_from_toc \<lparr>toc = [(1, ''Chapter One'', 1)], pages = []\<rparr>))
       \<noteq> page_count \<lparr>toc = [(1, ''Chapter One'', 1)], pages = []\<rparr> - 1"
  by code_simp

text \<open>
  C10. The last pass of the Outline-Based Detector removes no chapter: on every document
  the filtered list equals the unfiltered one, so the detector returns the unfiltered
  list whenever the outline is not empty.
\<close>

theorem collapse_pass_removes_nothing:
  "toc_filtered (- 9999) (toc_chapters (page_count doc) (toc_sorted_starts doc))
     = toc_chapters (page_count doc) (toc_sorted_starts doc)
   \<and> chapters_from_toc doc =
       (if toc doc = [] then [] else toc_chapters (page_count doc) (toc_sorted_starts doc))"
  using toc_filtered_unchanged chapters_from_toc_unfiltered by blast

theorem collapse_pass_removes_nothing_witness:
  "toc_filtered (- 9999) (toc_chapters 20 (toc_sorted_starts
      \<lparr>toc = [(1, ''Chapter One'', 1), (2, ''Chapter 1 again'', 1), (1, ''Chapter Two'', 2)],
       pages = replicate 20 []\<rparr>))
    = [\<lparr>label = ''TOC'', title = ''Chapter One'', start_page = 0, end_page = 0\<rparr>,
       \<lparr>label = ''TOC'', title = ''Chapter Two'', start_page = 1, end_page = 19\<rparr>]"
proof -
  let ?d = "\<lparr>toc = [(1, ''Chapter One'', 1), (2, ''Chapter 1 again'', 1), (1, ''Chapter Two'', 2)],
       pages = replicate 20 []\<rparr>"
  have n: "page_count ?d = 20" by (simp add: page_count_def)
  have "toc_chapters 20 (toc_sorted_starts ?d)
    = [\<lparr>label = ''TOC'', title = ''Chapter One'', start_page = 0, end_page = 0\<rparr>,
       \<lparr>label = ''TOC'', title = ''Chapter Two'', start_page = 1, end_page = 19\<rparr>]"
    by code_simp
  with collapse_pass_removes_nothing[of ?d] n show ?thesis by simp
qed

text \<open>
  C4. For a document of 20 pages whose outline is (1, "Chapter One", 1) and
  (1, "Chapter Two", 10), the Outline-Based Detector returns exactly two chapters, with
  pages 0 to 8 and 9 to 19.
\<close>

theorem outline_example_two_chapters:
  assumes "length ps = 20"
  shows "chapters_from_toc \<lparr>toc = [(1, ''Chapter One'', 1), (1, ''Chapter Two'', 10)], pages = ps\<rparr>
    = [\<lparr>label = ''TOC'', title = ''Chapter One'', start_page = 0, end_page = 8\<rparr>,
       \<lparr>label = ''TOC'', title = ''Chapter Two'', start_page = 9, end_page = 19\<rparr>]"
proof -
  have h1: "TOC_CHAPTER_HINT ''Chapter One''" by code_simp
  have h2: "TOC_CHAPTER_HINT ''Chapter Two''" by code_simp
  have n1: "normalize_whitespace ''Chapter One'' = ''Chapter One''" by code_simp
  have n2: "normalize_whitespace ''Chapter Two'' = ''Chapter Two''" by code_simp
  show ?thesis
    using assms h1 h2 n1 n2
    by (simp add: chapters_from_toc_def toc_sorted_starts_def toc_entries_def page_count_def)
qed

theorem outline_example_two_chapters_witness:
  "length (replicate 20 ([] :: string)) = 20
   \<and> chapters_from_toc
       \<lparr>toc = [(1, ''Chapter One'', 1), (1, ''Chapter Two'', 10)], pages = replicate 20 []\<rparr>
    = [\<lparr>label = ''TOC'', title = ''Chapter One'', start_page = 0, end_page = 8\<rparr>,
       \<lparr>label = ''TOC'', title = ''Chapter Two'', start_page = 9, end_page = 19\<rparr>]"
  using outline_example_two_chapters[of "replicate 20 []"] by simp

text \<open>
  C6 (as amended). Every chapter produced by the Outline-Based Detector has the label
  \<open>"TOC"\<close>, the constant the detector writes where no heading label applies.
\<close>

theorem outline_label_is_TOC:
  "c \<in> set (chapters_from_toc doc) \<Longrightarrow> label c = ''TOC''"
  by (auto simp: chapters_from_toc_unfiltered toc_chapters_label split: if_splits)

theorem outline_label_is_TOC_witness:
  "\<lparr>label = ''TOC'', title = ''Chapter One'', start_page = 0, end_page = 19\<rparr>
     \<in> set (chapters_from_toc \<lparr>toc = [(1, ''Chapter One'', 1)], pages = replicate 20 []\<rparr>)
   \<and> label \<lparr>label = ''TOC'', title = ''Chapter One'', start_page = 0, end_page = 19\<rparr> = ''TOC''"
proof -
  let ?d = "\<lparr>toc = [(1, ''Chapter One'', 1)], pages = replicate 20 []\<rparr>"
  let ?c = "\<lparr>label = ''TOC'', title = ''Chapter One'', start_page = 0, end_page = 19\<rparr>"
  have "chapters_from_toc ?d = [?c]" by code_simp
  then have m: "?c \<in> set (chapters_from_toc ?d)" by simp
  from outline_label_is_TOC[OF m] m show ?thesis by blast
qed

text \<open>
  C6 as stated names the sentinel \<open>"derived-from-outline"\<close>; the label the detector
  writes is a different string.
\<close>

theorem outline_label_counterexample:
  "chapters_from_toc \<lparr>toc = [(1, ''Chapter One'', 1)], pages = replicate 20 []\<rparr>
     = [\<lparr>label = ''TOC'', title = ''Chapter One'', start_page = 0, end_page = 19\<rparr>]
   \<and> label (hd (chapters_from_toc \<lparr>toc = [(1, ''Chapter One'', 1)], pages = replicate 20 []\<rparr>))
       \<noteq> ''derived-from-outline''"
  by code_simp

text \<open>
  C5 (as amended). In the Outline-Based Detector every outline entry that survives the
  filtering and whose one-based page number is not 0 contributes the candidate start
  page \<open>max(0, min(page - 1, pageCount - 1))\<close>: the start pages of the chapters returned
  are exactly these candidates, each once. The candidate lies in \<open>[0, pageCount - 1]\<close>
  when the document has at least one page, and it is 0 for a negative page number. An
  entry whose page number is 0 is skipped.
\<close>

theorem outline_candidate_start_pages:
  "start_page ` set (chapters_from_toc doc)
     = (\<lambda>page1. max 0 (min (page1 - 1) (page_count doc - 1))) `
         {page1 \<in> (snd \<circ> snd) ` set (toc_entries (toc doc)). page1 \<noteq> 0}
   \<and> distinct (map start_page (chapters_from_toc doc))
   \<and> (\<forall>page1. pages doc \<noteq> [] \<longrightarrow>
        0 \<le> max 0 (min (page1 - 1) (page_count doc - 1))
        \<and> max 0 (min (page1 - 1) (page_count doc - 1)) \<le> page_count doc - 1)
   \<and> (\<forall>page1. page1 < 0 \<longrightarrow> max 0 (min (page1 - 1) (page_count doc - 1)) = 0)"
proof -
  have fn: "(\<lambda>page1. max 0 (min (page1 - 1) (page_count doc - 1))) = clamp_start (page_count doc)"
    by (rule ext) (simp add: clamp_start_def)
  have e: "toc doc = [] \<Longrightarrow> toc_entries (toc doc) = []"
    by (simp add: toc_entries_def)
  have "set (map start_page (toc_chapters (page_count doc) (toc_sorted_starts doc)))
          = fst ` set (toc_sorted_starts doc)"
    by (simp only: toc_chapters_starts set_map)
  then have "start_page ` set (toc_chapters (page_count doc) (toc_sorted_starts doc))
          = fst ` set (toc_sorted_starts doc)"
    by simp
  then have a: "start_page ` set (chapters_from_toc doc)
     = clamp_start (page_count doc) `
         {page1 \<in> (snd \<circ> snd) ` set (toc_entries (toc doc)). page1 \<noteq> 0}"
    using e by (simp add: chapters_from_toc_unfiltered toc_sorted_starts_keys)
  have "sorted_wrt (<) (map start_page (toc_chapters (page_count doc) (toc_sorted_starts doc)))"
    by (simp add: toc_chapters_starts toc_sorted_starts_strict)
  then have "distinct (map start_page (toc_chapters (page_count doc) (toc_sorted_starts doc)))"
    by (simp add: strict_sorted_iff)
  then have b: "distinct (map start_page (chapters_from_toc doc))"
    by (simp add: chapters_from_toc_unfiltered)
  have c: "\<forall>page1. pages doc \<noteq> [] \<longrightarrow>
        0 \<le> max 0 (min (page1 - 1) (page_count doc - 1))
        \<and> max 0 (min (page1 - 1) (page_count doc - 1)) \<le> page_count doc - 1"
    by (cases "pages doc") (simp_all add: page_count_def)
  have d: "\<forall>page1. page1 < 0 \<longrightarrow> max 0 (min (page1 - 1) (page_count doc - 1)) = 0"
    by simp
  from a have a': "start_page ` set (chapters_from_toc doc)
     = (\<lambda>page1. max 0 (min (page1 - 1) (page_count doc - 1))) `
         {page1 \<in> (snd \<circ> snd) ` set (toc_entries (toc doc)). page1 \<noteq> 0}"
    unfolding fn .
  from a' b c d show ?thesis by blast
qed

theorem outline_candidate_start_pages_witness:
  "pages \<lparr>toc = [(1, ''Chapter One'', - 3), (1, ''Chapter Two'', 0), (1, ''Chapter Three'', 7)],
          pages = replicate 20 []\<rparr> \<noteq> []
   \<and> start_page ` set (chapters_from_toc
        \<lparr>toc = [(1, ''Chapter One'', - 3), (1, ''Chapter Two'', 0), (1, ''Chapter Three'', 7)],
         pages = replicate 20 []\<rparr>) = {0, 6}"
proof -
  let ?d = "\<lparr>toc = [(1, ''Chapter One'', - 3), (1, ''Chapter Two'', 0), (1, ''Chapter Three'', 7)],
         pages = replicate 20 []\<rparr>"
  have e: "toc_entries (toc ?d)
    = [(1, ''Chapter One'', - 3), (1, ''Chapter Two'', 0), (1, ''Chapter Three'', 7)]"
    by code_simp
  have n: "page_count ?d = 20" by (simp add: page_count_def)
  have s: "{page1 \<in> (snd \<circ> snd) ` set (toc_entries (toc ?d)). page1 \<noteq> 0} = {- 3, 7}"
    unfolding e by auto
  have "start_page ` set (chapters_from_toc ?d)
          = (\<lambda>page1. max 0 (min (page1 - 1) (page_count ?d - 1))) ` {- 3, 7}"
    using outline_candidate_start_pages[of ?d] s by simp
  then have "start_page ` set (chapters_from_toc ?d) = {0, 6}"
    unfolding n by simp
  then show ?thesis by simp
qed

text \<open>
  C5 as stated lets an entry with the one-based page number 0 contribute a candidate
  start page. The detector skips such an entry (\<open>if not page1: continue\<close>): an outline
  whose only entry has page 0 survives the filtering, yields no start page and no
  chapter.
\<close>

theorem page_zero_entry_counterexample:
  "toc_entries [(1, ''Chapter One'', 0)] = [(1, ''Chapter One'', 0)]
   \<and> toc_starts 20 [(1, ''Chapter One'', 0)] [] {} = []
   \<and> chapters_from_toc \<lparr>toc = [(1, ''Chapter One'', 0)], pages = replicate 20 []\<rparr> = []"
  by code_simp

text \<open>
  C2. The Chapter Resolver returns the result of the Outline-Based Detector unmodified
  whenever it is not empty, otherwise the result of the Scan-Based Detector, and the
  empty list when both are empty; the two results are never merged.
\<close>

theorem resolver_two_tier:
  "(chapters_from_toc doc \<noteq> [] \<longrightarrow> detect_chapters doc = chapters_from_toc doc)
   \<and> (chapters_from_toc doc = [] \<longrightarrow> detect_chapters doc = chapters_by_scanning doc)
   \<and> (chapters_from_toc doc = [] \<and> chapters_by_scanning doc = [] \<longrightarrow> detect_chapters doc = [])"
  by (simp add: detect_chapters_def Let_def)

theorem resolver_two_tier_witness:
  "chapters_from_toc \<lparr>toc = [(1, ''Chapter One'', 1)], pages = [''Chapter 1 Intro'', ''x'', ''Chapter 2'']\<rparr> \<noteq> []
   \<and> chapters_by_scanning \<lparr>toc = [(1, ''Chapter One'', 1)], pages = [''Chapter 1 Intro'', ''x'', ''Chapter 2'']\<rparr> \<noteq> []
   \<and> detect_chapters \<lparr>toc = [(1, ''Chapter One'', 1)], pages = [''Chapter 1 Intro'', ''x'', ''Chapter 2'']\<rparr>
       = [\<lparr>label = ''TOC'', title = ''Chapter One'', start_page = 0, end_page = 2\<rparr>]
   \<and> chapters_from_toc \<lparr>toc = [], pages = [''Chapter 1 Intro'', ''x'', ''Chapter 2'']\<rparr> = []
   \<and> detect_chapters \<lparr>toc = [], pages = [''Chapter 1 Intro'', ''x'', ''Chapter 2'']\<rparr>
       = [\<lparr>label = ''1'', title = ''Intro'', start_page = 0, end_page = 1\<rparr>,
          \<lparr>label = ''2'', title = [], start_page = 2, end_page = 2\<rparr>]
   \<and> chapters_from_toc \<lparr>toc = [], pages = [''x'', ''y'']\<rparr> = []
   \<and> chapters_by_scanning \<lparr>toc = [], pages = [''x'', ''y'']\<rparr> = []
   \<and> detect_chapters \<lparr>toc = [], pages = [''x'', ''y'']\<rparr> = []"
proof -
  let ?a = "\<lparr>toc = [(1, ''Chapter One'', 1)], pages = [''Chapter 1 Intro'', ''x'', ''Chapter 2'']\<rparr>"
  let ?b = "\<lparr>toc = [], pages = [''Chapter 1 Intro'', ''x'', ''Chapter 2'']\<rparr>"
  let ?c = "\<lparr>toc = [], pages = [''x'', ''y'']\<rparr>"
  have a1: "chapters_from_toc ?a
              = [\<lparr>label = ''TOC'', title = ''Chapter One'', start_page = 0, end_page = 2\<rparr>]"
    by code_simp
  have a2: "chapters_by_scanning ?a \<noteq> []" by code_simp
  have b1: "chapters_from_toc ?b = []" by code_simp
  have b2: "chapters_by_scanning ?b
       = [\<lparr>label = ''1'', title = ''Intro'', start_page = 0, end_page = 1\<rparr>,
          \<lparr>label = ''2'', title = [], start_page = 2, end_page = 2\<rparr>]"
    by code_simp
  have c1: "chapters_from_toc ?c = []" by code_simp
  have c2: "chapters_by_scanning ?c = []" by code_simp
  from resolver_two_tier[of ?a] resolver_two_tier[of ?b] resolver_two_tier[of ?c]
    a1 a2 b1 b2 c1 c2
  show ?thesis by simp
qed

text \<open>
  C3. The deduplication loop of the Scan-Based Detector keeps the first match and keeps a
  later match exactly when its page index is at least 2 greater than the page index of
  the match kept before it, which is what \<open>keep_two_apart\<close> computes; the chapters are
  built from the matches so kept. In particular, when the matches are on pages 0 and 1
  only, the result is the single chapter of page 0, from page 0 to \<open>pageCount - 1\<close>.
\<close>

theorem scan_dedup_two_pages_apart:
  "scan_dedup (- 9999) (scan_hits doc) = keep_two_apart (scan_hits doc)
   \<and> chapters_by_scanning doc
       = (if scan_hits doc = [] then []
          else scan_chapters (page_count doc) (keep_two_apart (scan_hits doc)))
   \<and> (scan_hits doc = [(0, l0, t0), (1, l1, t1)] \<longrightarrow>
        chapters_by_scanning doc
          = [\<lparr>label = l0, title = t0, start_page = 0, end_page = page_count doc - 1\<rparr>])"
proof -
  have a: "scan_dedup (- 9999) (scan_hits doc) = keep_two_apart (scan_hits doc)"
    by (rule scan_dedup_keep_two_apart)
  have b: "chapters_by_scanning doc
       = (if scan_hits doc = [] then []
          else scan_chapters (page_count doc) (keep_two_apart (scan_hits doc)))"
    by (simp add: chapters_by_scanning_def a)
  have c: "chapters_by_scanning doc
          = [\<lparr>label = l0, title = t0, start_page = 0, end_page = page_count doc - 1\<rparr>]"
    if h: "scan_hits doc = [(0, l0, t0), (1, l1, t1)]"
  proof -
    have "(1, l1, t1) \<in> set (scan_hits doc)" using h by simp
    then have "1 \<le> page_count doc - 1" using scan_hits_bounds[of "(1, l1, t1)" doc] by simp
    then show ?thesis using h by (simp add: b keep_two_apart_def)
  qed
  from a b c show ?thesis by blast
qed

theorem scan_dedup_two_pages_apart_witness:
  "scan_hits \<lparr>toc = [], pages = [''Chapter 1 Intro'', ''Chapter 1 Intro'', ''body'']\<rparr>
     = [(0, ''1'', ''Intro''), (1, ''1'', ''Intro'')]
   \<and> chapters_by_scanning \<lparr>toc = [], pages = [''Chapter 1 Intro'', ''Chapter 1 Intro'', ''body'']\<rparr>
     = [\<lparr>label = ''1'', title = ''Intro'', start_page = 0, end_page = 2\<rparr>]"
proof -
  let ?d = "\<lparr>toc = [], pages = [''Chapter 1 Intro'', ''Chapter 1 Intro'', ''body'']\<rparr>"
  have h: "scan_hits ?d = [(0, ''1'', ''Intro''), (1, ''1'', ''Intro'')]" by code_simp
  have n: "page_count ?d = 3" by (simp add: page_count_def)
  from scan_dedup_two_pages_apart[of ?d "''1''" "''Intro''" "''1''" "''Intro''"] h
  have "chapters_by_scanning ?d
     = [\<lparr>label = ''1'', title = ''Intro'', start_page = 0, end_page = page_count ?d - 1\<rparr>]"
    by blast
  with h n show ?thesis by simp
qed

text \<open>
  C7. On the line "Chapter 3: The Return" the first pattern captures the identifier "3"
  and the trailing text ": The Return"; on every page whose first non-empty line
  (stripped) is that line, the Heading Matcher returns the label "3" and the title
  "The Return", the captured text with its leading separator removed and its whitespace
  normalized.
\<close>

theorem heading_example:
  "first_match CHAPTER_PATTERNS ''Chapter 3: The Return'' = Some (''3'', '': The Return'')
   \<and> (page_lines text = ''Chapter 3: The Return'' # rest \<longrightarrow>
        find_chapter_heading_on_page text = Some (''3'', ''The Return''))"
proof -
  have m: "first_match CHAPTER_PATTERNS ''Chapter 3: The Return'' = Some (''3'', '': The Return'')"
    by code_simp
  have r: "heading_result (''3'', '': The Return'') = (''3'', ''The Return'')"
    by code_simp
  have "find_chapter_heading_on_page text = Some (''3'', ''The Return'')"
    if "page_lines text = ''Chapter 3: The Return'' # rest"
  proof -
    have "take 25 (page_lines text) = ''Chapter 3: The Return'' # take 24 rest"
      using that by (simp add: take_Cons')
    then have "scan_heading_lines (take 25 (page_lines text)) = Some (''3'', ''The Return'')"
      using m r by simp
    then show ?thesis using that by (simp add: find_chapter_heading_on_page_def)
  qed
  with m show ?thesis by blast
qed

theorem heading_example_witness:
  "page_lines (''   '' @ [CHR 0x0A] @ ''  Chapter 3: The Return '' @ [CHR 0x0A] @ ''It was night.'')
     = [''Chapter 3: The Return'', ''It was night.'']
   \<and> find_chapter_heading_on_page
       (''   '' @ [CHR 0x0A] @ ''  Chapter 3: The Return '' @ [CHR 0x0A] @ ''It was night.'')
     = Some (''3'', ''The Return'')"
proof -
  let ?t = "''   '' @ [CHR 0x0A] @ ''  Chapter 3: The Return '' @ [CHR 0x0A] @ ''It was night.''"
  have p: "page_lines ?t = [''Chapter 3: The Return'', ''It was night.'']" by code_simp
  from heading_example[of ?t "[''It was night.'']"] p show ?thesis by blast
qed

end
